theory Spec2Isabelle
  imports
    Complex_Main
    "HOL-Library.Multiset"
    "HOL-Library.Char_ord"
    "HOL-Library.List_Lexorder"
    "HOL-Library.Product_Lexorder"
    "HOL-Library.Sublist"
begin

section \<open>Purchase Order Analysis Tool: the data pipeline of app.py\<close>

text \<open>
  The script loads a table, checks its columns, coerces three monetary columns to
  numbers, filters the rows, adds two derived columns and builds the tables shown on the
  page. The model below follows the script top to bottom and keeps its names.

  Conventions of the model:
  \<^item> a cell that pandas holds as NaN / None / NaT is \<open>None\<close>;
  \<^item> a number is an exact rational: the rounding, the infinities and the NaN arithmetic
    of float64 are not modelled;
  \<^item> a date is an integer (a position on the time line);
  \<^item> strings are ordered as Python orders them: lexicographically by character code,
    a proper prefix first;
  \<^item> the pandas calls are modelled by what pandas does for the arguments the script
    passes. \<^verbatim>\<open>sort_values\<close> is modelled down to the call of numpy's \<^verbatim>\<open>argsort\<close>, which is a
    parameter of each sorted table; \<open>np_argsort\<close> models the routine that numpy runs for
    the default \<^verbatim>\<open>kind="quicksort"\<close>. The text that \<^verbatim>\<open>to_numeric\<close> accepts as a number is a
    parameter;
  \<^item> the drill-down table (lines 86 to 105 of app.py) only renders a view of
    \<^verbatim>\<open>filtered_df\<close> and feeds no later step; it is left out, as are the widgets, the
    charts and the number formatting. In that block the \<^verbatim>\<open>else:\<close> of line 102 has no
    indented body, which Python rejects when it compiles the file; the model follows the
    block structure that the indentation of all other lines shows.
\<close>

subsection \<open>Data\<close>

type_synonym date = int

datatype cell = Null | Num rat | Str string

text \<open>
  One row of the table, with the nine required columns. The three monetary columns have
  type \<open>'m\<close>: raw cells as loaded, \<open>rat option\<close> after \<^verbatim>\<open>pd.to_numeric\<close>.
\<close>

record 'm po_row =
  Supplier :: "string option"
  Cost_Center_Code :: "string option"
  Purchase_Order_Value :: 'm
  Receipted_Value :: 'm
  Invoiced_Value :: 'm
  Report_Date :: "date option"
  PO_Number :: cell
  Description :: cell
  Item_Description :: cell

text \<open>The row after lines 63 and 64 have added the two derived columns.\<close>

record derived_row = "rat option po_row" +
  Unreceipted_Value :: "rat option"
  Uninvoiced_Value :: "rat option"

text \<open>
  The loaded table: its column names and its rows. The cells of a row under a name that
  is not in \<open>columns\<close> are never read, since the script stops at the column check.
\<close>

record dataframe =
  columns :: "string list"
  rows :: "cell po_row list"

text \<open>The widget values of lines 42 to 51: the two dates and the two selections.\<close>

record criteria =
  date_range :: "date \<times> date"
  selected_suppliers :: "string list"
  selected_centers :: "string list"

text \<open>The five sums of a KPI row or of a row of the supplier summary.\<close>

record totals =
  total_po :: rat
  total_receipted :: rat
  total_invoiced :: rat
  total_unreceipted :: rat
  total_uninvoiced :: rat

datatype error = SchemaError "string list"

subsection \<open>Column check, lines 25 to 31\<close>

definition required_cols :: "string list" where
  "required_cols =
     [''Supplier'', ''Cost Center Code'', ''Purchase Order Value'', ''Receipted Value'',
      ''Invoiced Value'', ''Report Date'', ''PO Number'', ''Description'',
      ''Item Description'']"

definition missing_cols :: "dataframe \<Rightarrow> string list" where
  "missing_cols df = filter (\<lambda>col. col \<notin> set (columns df)) required_cols"

subsection \<open>Numeric coercion, lines 35 and 36\<close>

text \<open>
  \<^verbatim>\<open>pd.to_numeric(col, errors="coerce")\<close> works cell by cell: a missing cell stays missing,
  a number stays, a text is parsed and becomes missing when it is no number. The parser
  of texts is the parameter \<open>parse\<close>.
\<close>

definition to_numeric :: "(string \<Rightarrow> rat option) \<Rightarrow> cell \<Rightarrow> rat option" where
  "to_numeric parse v = (case v of Null \<Rightarrow> None | Num x \<Rightarrow> Some x | Str s \<Rightarrow> parse s)"

definition coerce_row :: "(string \<Rightarrow> rat option) \<Rightarrow> cell po_row \<Rightarrow> rat option po_row" where
  "coerce_row parse r =
     \<lparr>Supplier = Supplier r,
      Cost_Center_Code = Cost_Center_Code r,
      Purchase_Order_Value = to_numeric parse (Purchase_Order_Value r),
      Receipted_Value = to_numeric parse (Receipted_Value r),
      Invoiced_Value = to_numeric parse (Invoiced_Value r),
      Report_Date = Report_Date r,
      PO_Number = PO_Number r,
      Description = Description r,
      Item_Description = Item_Description r\<rparr>"

definition coerce_money :: "(string \<Rightarrow> rat option) \<Rightarrow> cell po_row list \<Rightarrow> rat option po_row list" where
  "coerce_money parse rs = map (coerce_row parse) rs"

subsection \<open>Filters, lines 44 to 62\<close>

text \<open>\<^verbatim>\<open>sorted(df[col].dropna().unique())\<close>\<close>

definition sorted_unique :: "('r \<Rightarrow> string option) \<Rightarrow> 'r list \<Rightarrow> string list" where
  "sorted_unique col rs = sort (remdups (List.map_filter col rs))"

definition all_suppliers :: "('m, 'a) po_row_scheme list \<Rightarrow> string list" where
  "all_suppliers rs = sorted_unique Supplier rs"

definition all_centers :: "('m, 'a) po_row_scheme list \<Rightarrow> string list" where
  "all_centers rs = sorted_unique Cost_Center_Code rs"

text \<open>\<^verbatim>\<open>Series.isin(values)\<close>: a missing cell is in no list of strings.\<close>

definition isin :: "string option \<Rightarrow> string list \<Rightarrow> bool" where
  "isin v vals = (case v of None \<Rightarrow> False | Some s \<Rightarrow> s \<in> set vals)"

text \<open>
  The mask of lines 53 to 60. A comparison with a missing date is False. The supplier
  and cost centre conditions are added only when the selection is not empty.
\<close>

definition mask :: "criteria \<Rightarrow> ('m, 'a) po_row_scheme \<Rightarrow> bool" where
  "mask c r =
     ((case Report_Date r of
         None \<Rightarrow> False
       | Some d \<Rightarrow> fst (date_range c) \<le> d \<and> d \<le> snd (date_range c))
      \<and> (if selected_suppliers c \<noteq> [] then isin (Supplier r) (selected_suppliers c) else True)
      \<and> (if selected_centers c \<noteq> [] then isin (Cost_Center_Code r) (selected_centers c) else True))"

definition filter_rows :: "criteria \<Rightarrow> ('m, 'a) po_row_scheme list \<Rightarrow> ('m, 'a) po_row_scheme list" where
  "filter_rows c rs = filter (mask c) rs"

subsection \<open>Derived columns, lines 63 and 64\<close>

text \<open>Subtraction of two float columns: the result is missing where an operand is.\<close>

definition sub_null :: "rat option \<Rightarrow> rat option \<Rightarrow> rat option" where
  "sub_null a b =
     (case a of None \<Rightarrow> None | Some x \<Rightarrow> (case b of None \<Rightarrow> None | Some y \<Rightarrow> Some (x - y)))"

definition add_derived :: "rat option po_row \<Rightarrow> derived_row" where
  "add_derived r =
     po_row.extend r
       (derived_row.fields
          (sub_null (Purchase_Order_Value r) (Receipted_Value r))
          (sub_null (Receipted_Value r) (Invoiced_Value r)))"

definition filtered_df :: "criteria \<Rightarrow> rat option po_row list \<Rightarrow> derived_row list" where
  "filtered_df c rs = map add_derived (filter_rows c rs)"

subsection \<open>Sums and groups\<close>

text \<open>
  \<^verbatim>\<open>Series.sum()\<close> skips missing cells; the sum of no cell is 0. The sum is exact here.
  In pandas it is a float64 sum, whose value depends on the order of the additions: two
  sums of the same cells taken in different orders are equal in this model and need not
  be equal in pandas.
\<close>

definition sum_skipna :: "rat option list \<Rightarrow> rat" where
  "sum_skipna vs = sum_list (map (\<lambda>v. case v of None \<Rightarrow> 0 | Some x \<Rightarrow> x) vs)"

definition sum_five :: "derived_row list \<Rightarrow> totals" where
  "sum_five rs =
     \<lparr>total_po = sum_skipna (map Purchase_Order_Value rs),
      total_receipted = sum_skipna (map Receipted_Value rs),
      total_invoiced = sum_skipna (map Invoiced_Value rs),
      total_unreceipted = sum_skipna (map Unreceipted_Value rs),
      total_uninvoiced = sum_skipna (map Uninvoiced_Value rs)\<rparr>"

text \<open>
  \<^verbatim>\<open>groupby(key)\<close> with its defaults \<^verbatim>\<open>sort=True, dropna=True\<close>: one group for each key
  that occurs, the groups in ascending key order, and no group for rows whose key is
  missing.
\<close>

definition group_keys :: "('r \<Rightarrow> 'k::linorder option) \<Rightarrow> 'r list \<Rightarrow> 'k list" where
  "group_keys key rs = sort (remdups (List.map_filter key rs))"

definition group_rows :: "('r \<Rightarrow> 'k option) \<Rightarrow> 'r list \<Rightarrow> 'k \<Rightarrow> 'r list" where
  "group_rows key rs k = filter (\<lambda>r. key r = Some k) rs"

definition groupby_sum ::
  "('r \<Rightarrow> 'k::linorder option) \<Rightarrow> ('r \<Rightarrow> rat option) \<Rightarrow> 'r list \<Rightarrow> ('k \<times> rat) list" where
  "groupby_sum key col rs =
     map (\<lambda>k. (k, sum_skipna (map col (group_rows key rs k)))) (group_keys key rs)"

definition groupby_sum_five :: "derived_row list \<Rightarrow> (string \<times> totals) list" where
  "groupby_sum_five rs =
     map (\<lambda>k. (k, sum_five (group_rows Supplier rs k))) (group_keys Supplier rs)"

text \<open>The key of a group by two columns: missing when either column is.\<close>

definition key2 :: "('r \<Rightarrow> 'a option) \<Rightarrow> ('r \<Rightarrow> 'b option) \<Rightarrow> 'r \<Rightarrow> ('a \<times> 'b) option" where
  "key2 k1 k2 r =
     (case k1 r of None \<Rightarrow> None | Some a \<Rightarrow> (case k2 r of None \<Rightarrow> None | Some b \<Rightarrow> Some (a, b)))"

subsection \<open>The sort behind \<^verbatim>\<open>sort_values\<close>\<close>

text \<open>
  \<^verbatim>\<open>sort_values\<close> is called with the default \<^verbatim>\<open>kind="quicksort"\<close>. For that kind numpy's
  \<^verbatim>\<open>argsort\<close> runs the indirect quicksort of \<^verbatim>\<open>npysort/quicksort.cpp\<close> (\<^verbatim>\<open>aquicksort\<close>): it
  permutes an array \<open>t\<close> of positions and compares the keys \<open>v\<close> at these positions. The
  functions below follow that routine on one segment of \<open>t\<close>, positions of the segment
  counted from 0, so that \<^verbatim>\<open>pl\<close> is 0 and \<^verbatim>\<open>pr\<close> is \<open>length t - 1\<close>. The pointers
  \<^verbatim>\<open>pi\<close> and \<^verbatim>\<open>pj\<close> of the routine are \<open>i\<close> and \<open>j\<close> here.
\<close>

definition swap :: "nat \<Rightarrow> nat \<Rightarrow> 'a list \<Rightarrow> 'a list" where
  "swap i j xs = xs[i := xs ! j, j := xs ! i]"

text \<open>The three conditional swaps that bring the median of three keys to \<^verbatim>\<open>pm\<close>.\<close>

definition median3 :: "'k::linorder list \<Rightarrow> nat list \<Rightarrow> nat list" where
  "median3 v t =
     (let pr = length t - 1;
          pm = pr div 2;
          t1 = (if v ! (t ! pm) < v ! (t ! 0) then swap pm 0 t else t);
          t2 = (if v ! (t1 ! pr) < v ! (t1 ! pm) then swap pr pm t1 else t1)
      in if v ! (t2 ! pm) < v ! (t2 ! 0) then swap pm 0 t2 else t2)"

text \<open>
  The two scans \<^verbatim>\<open>do ++pi; while (v[*pi] < vp)\<close> and \<^verbatim>\<open>do --pj; while (vp < v[*pj])\<close>, from
  the position reached by the first step. In the routine they carry no bound: the pivot
  parked at \<^verbatim>\<open>pr - 1\<close> stops the first and the key at \<^verbatim>\<open>pl\<close>, which is not above the pivot,
  stops the second. The bounds written here make the functions total.
\<close>

function scan_up :: "'k::linorder list \<Rightarrow> nat list \<Rightarrow> 'k \<Rightarrow> nat \<Rightarrow> nat" where
  "scan_up v t vp i =
     (if Suc i < length t \<and> v ! (t ! i) < vp then scan_up v t vp (Suc i) else i)"
  by pat_completeness auto
termination
  by (relation "measure (\<lambda>(v, t, vp, i). length t - i)") auto

fun scan_down :: "'k::linorder list \<Rightarrow> nat list \<Rightarrow> 'k \<Rightarrow> nat \<Rightarrow> nat" where
  "scan_down v t vp j =
     (if 0 < j \<and> vp < v ! (t ! j) then scan_down v t vp (j - 1) else j)"

declare scan_up.simps [simp del] scan_down.simps [simp del]

text \<open>
  The loop \<^verbatim>\<open>for (;;)\<close> of the partition: scan, stop when the scans meet, else swap. That
  this loop and the loop over the segments end is proved at the head of the properties.
\<close>

function part_loop :: "'k::linorder list \<Rightarrow> 'k \<Rightarrow> nat list \<Rightarrow> nat \<Rightarrow> nat \<Rightarrow> nat list \<times> nat" where
  "part_loop v vp t i j =
     (let i' = scan_up v t vp (Suc i);
          j' = scan_down v t vp (j - 1)
      in if j' \<le> i' then (t, i') else part_loop v vp (swap i' j' t) i' j')"
  by pat_completeness auto

text \<open>
  One partition step: median of three, the pivot parked at \<^verbatim>\<open>pr - 1\<close>, the loop, and the
  pivot swapped to the place \<open>i\<close> where the scans met.
\<close>

definition qs_partition :: "'k::linorder list \<Rightarrow> nat list \<Rightarrow> nat list \<times> nat" where
  "qs_partition v t =
     (let pr = length t - 1;
          pm = pr div 2;
          t1 = median3 v t;
          vp = v ! (t1 ! pm);
          (t2, i) = part_loop v vp (swap pm (pr - 1) t1) 0 (pr - 1)
      in (swap i (pr - 1) t2, i))"

text \<open>The insertion sort that finishes a segment of at most 17 positions.\<close>

fun ins_loop :: "'k::linorder list \<Rightarrow> 'k \<Rightarrow> nat list \<Rightarrow> nat \<Rightarrow> nat list \<times> nat" where
  "ins_loop v vp t j =
     (if 0 < j \<and> vp < v ! (t ! (j - 1)) then ins_loop v vp (t[j := t ! (j - 1)]) (j - 1)
      else (t, j))"

declare ins_loop.simps [simp del]

definition insert_at :: "'k::linorder list \<Rightarrow> nat \<Rightarrow> nat list \<Rightarrow> nat list" where
  "insert_at v i t =
     (let vi = t ! i;
          (t', j) = ins_loop v (v ! vi) t i
      in t'[j := vi])"

definition insertion_sort :: "'k::linorder list \<Rightarrow> nat list \<Rightarrow> nat list" where
  "insertion_sort v t = fold (insert_at v) [1..<length t] t"

text \<open>
  The heap sort (\<^verbatim>\<open>aheapsort\<close>) that takes over a segment once the depth limit is used up.
  It counts positions from 1: the list \<open>a\<close> is the segment behind one unused cell.
\<close>

function heap_sift ::
  "'k::linorder list \<Rightarrow> nat \<Rightarrow> nat \<Rightarrow> nat list \<Rightarrow> nat \<Rightarrow> nat \<Rightarrow> nat list \<times> nat" where
  "heap_sift v tmp n a i j =
     (if 0 < j \<and> j \<le> n then
        (let j' = (if j < n \<and> v ! (a ! j) < v ! (a ! (j + 1)) then j + 1 else j)
         in if v ! tmp < v ! (a ! j') then heap_sift v tmp n (a[i := a ! j']) j' (j' + j')
            else (a, i))
      else (a, i))"
  by pat_completeness auto
termination
  by (relation "measure (\<lambda>(v, tmp, n, a, i, j). Suc n - j)") auto

declare heap_sift.simps [simp del]

definition heap_place :: "'k::linorder list \<Rightarrow> nat \<Rightarrow> nat \<Rightarrow> nat list \<Rightarrow> nat list" where
  "heap_place v n l a =
     (let tmp = a ! l;
          (a', i) = heap_sift v tmp n a l (l + l)
      in a'[i := tmp])"

definition heap_pop :: "'k::linorder list \<Rightarrow> nat \<Rightarrow> nat list \<Rightarrow> nat list" where
  "heap_pop v n a =
     (let tmp = a ! n;
          (a', i) = heap_sift v tmp (n - 1) (a[n := a ! 1]) 1 2
      in a'[i := tmp])"

definition aheapsort :: "'k::linorder list \<Rightarrow> nat list \<Rightarrow> nat list" where
  "aheapsort v t =
     (let n = length t;
          a = 0 # t;
          a1 = fold (heap_place v n) (rev [1..<Suc (n div 2)]) a;
          a2 = fold (heap_pop v) (rev [2..<Suc n]) a1
      in tl a2)"

text \<open>
  The loop \<^verbatim>\<open>while ((pr - pl) > SMALL_QUICKSORT)\<close>, with \<^verbatim>\<open>SMALL_QUICKSORT\<close> 16: a segment of
  more than 17 positions is partitioned; the routine goes on with the smaller part and
  pushes the larger one on its stack, together with the lowered depth \<open>d\<close>. A part popped
  from the stack is heap-sorted when its depth is below 0, and goes through the loop
  otherwise. The parts are disjoint, so sorting one after the other gives the segment
  \<open>left @ [pivot] @ right\<close>.
\<close>

function quick_loop :: "'k::linorder list \<Rightarrow> int \<Rightarrow> nat list \<Rightarrow> nat list" where
  "quick_loop v cdepth t =
     (if 16 < length t - 1 then
        (let (t', i) = qs_partition v t;
             d = cdepth - 1;
             left = take i t';
             right = drop (Suc i) t'
         in if i < length t - 1 - i
            then quick_loop v d left @ [t' ! i]
                   @ (if d < 0 then aheapsort v right else quick_loop v d right)
            else (if d < 0 then aheapsort v left else quick_loop v d left) @ [t' ! i]
                   @ quick_loop v d right)
      else insertion_sort v t)"
  by pat_completeness auto

text \<open>\<^verbatim>\<open>npy_get_msb\<close>: the number of times \<open>unum\<close> can be halved before it is 0, less one.\<close>

function npy_get_msb :: "nat \<Rightarrow> nat" where
  "npy_get_msb unum = (if unum div 2 = 0 then 0 else Suc (npy_get_msb (unum div 2)))"
  by pat_completeness auto
termination
  by (relation "measure id") auto

declare npy_get_msb.simps [simp del]

text \<open>
  \<^verbatim>\<open>argsort\<close> of the keys \<open>v\<close>: the routine started on all positions with the depth limit
  \<^verbatim>\<open>2 * npy_get_msb(num)\<close>, which is not below 0. (Builds of numpy that hand float64 keys to a
  vectorised routine on some processors may order equal keys differently; no such routine
  exists for dates.)
\<close>

definition np_argsort :: "'k::linorder list \<Rightarrow> nat list" where
  "np_argsort v = quick_loop v (2 * int (npy_get_msb (length v))) [0..<length v]"

text \<open>
  What every \<^verbatim>\<open>argsort\<close> is documented to return for the keys \<open>ks\<close>: the positions of
  \<open>ks\<close>, each once, in an order in which the keys ascend.
\<close>

definition argsort_ok :: "('k::linorder list \<Rightarrow> nat list) \<Rightarrow> 'k list \<Rightarrow> bool" where
  "argsort_ok argsort ks \<longleftrightarrow>
     sort (argsort ks) = [0..<length ks] \<and> sorted (map (\<lambda>i. ks ! i) (argsort ks))"

text \<open>
  \<^verbatim>\<open>nargsort\<close> of pandas (\<^verbatim>\<open>core/sorting.py\<close>) for keys without missing values, as the sort
  columns of the script are after \<^verbatim>\<open>groupby\<close>: for a descending sort it reverses the keys
  and their positions, sorts ascending and reverses the result.
\<close>

definition nargsort :: "('k list \<Rightarrow> nat list) \<Rightarrow> bool \<Rightarrow> 'k list \<Rightarrow> nat list" where
  "nargsort argsort ascending items =
     (let idx = [0..<length items];
          nonnans = (if ascending then items else rev items);
          nonnan_idx = (if ascending then idx else rev idx);
          indexer = map (\<lambda>i. nonnan_idx ! i) (argsort nonnans)
      in if ascending then indexer else rev indexer)"

text \<open>
  \<^verbatim>\<open>sort_values(by, ascending=...)\<close> of a table \<open>df\<close>, a list of rows, on the column that
  \<open>by\<close> reads from a row: the rows taken at the positions that \<^verbatim>\<open>nargsort\<close> returns.
\<close>

definition df_sort_values :: "('k list \<Rightarrow> nat list) \<Rightarrow> ('a \<Rightarrow> 'k) \<Rightarrow> bool \<Rightarrow> 'a list \<Rightarrow> 'a list" where
  "df_sort_values argsort by ascending df =
     map (\<lambda>i. df ! i) (nargsort argsort ascending (map by df))"

subsection \<open>Sorted tables, lines 79 to 83 and 111 to 128\<close>

text \<open>
  Line 82: \<^verbatim>\<open>.sort_values("Purchase Order Value", ascending=False)\<close> on the sums by
  supplier.
\<close>

definition summary :: "(rat list \<Rightarrow> nat list) \<Rightarrow> derived_row list \<Rightarrow> (string \<times> totals) list" where
  "summary argsort rs =
     df_sort_values argsort (\<lambda>row. total_po (snd row)) False (groupby_sum_five rs)"

text \<open>
  Lines 115 and 127: \<^verbatim>\<open>.sort_values("Report Date")\<close>, ascending by default, on the sums by
  date and supplier and by date and cost centre. After \<^verbatim>\<open>reset_index()\<close> a row is the pair
  of its two keys and its sum.
\<close>

definition trend_df ::
  "(date list \<Rightarrow> nat list) \<Rightarrow> derived_row list \<Rightarrow> ((date \<times> string) \<times> rat) list" where
  "trend_df argsort rs =
     df_sort_values argsort (\<lambda>row. fst (fst row)) True
       (groupby_sum (key2 Report_Date Supplier) Purchase_Order_Value rs)"

definition cc_trend_df ::
  "(date list \<Rightarrow> nat list) \<Rightarrow> derived_row list \<Rightarrow> ((date \<times> string) \<times> rat) list" where
  "cc_trend_df argsort rs =
     df_sort_values argsort (\<lambda>row. fst (fst row)) True
       (groupby_sum (key2 Report_Date Cost_Center_Code) Purchase_Order_Value rs)"

subsection \<open>Top groups, lines 135 and 140\<close>

text \<open>
  \<^verbatim>\<open>Series.nlargest(n)\<close> with the default \<^verbatim>\<open>keep="first"\<close>: the \<open>n\<close> largest values in
  decreasing order; where equal values cannot all fit, the earlier entries of the series
  are kept. When \<open>n\<close> is not smaller than the series, pandas sorts the whole series with
  \<^verbatim>\<open>sort_values(ascending=False)\<close>; otherwise it selects with a stable sort.
\<close>

text \<open>
  For the sort of the whole series all that the selection needs is that it rearranges
  the series into descending order: \<open>sorts_by le sort_values\<close>, where \<open>le a b\<close> reads
  "row \<open>a\<close> may stand before row \<open>b\<close>".
\<close>

definition sorts_by :: "('a \<Rightarrow> 'a \<Rightarrow> bool) \<Rightarrow> ('a list \<Rightarrow> 'a list) \<Rightarrow> bool" where
  "sorts_by le sort_values =
     (\<forall>xs. mset (sort_values xs) = mset xs \<and> sorted_wrt le (sort_values xs))"

definition value_descending :: "'k \<times> rat \<Rightarrow> 'k \<times> rat \<Rightarrow> bool" where
  "value_descending a b = (snd b \<le> snd a)"

definition nlargest ::
  "(('k \<times> rat) list \<Rightarrow> ('k \<times> rat) list) \<Rightarrow> nat \<Rightarrow> ('k \<times> rat) list \<Rightarrow> ('k \<times> rat) list" where
  "nlargest sort_values n s =
     (if length s \<le> n then take n (sort_values s)
      else take n (sort_key (\<lambda>x. - snd x) s))"

definition top_n ::
  "(('k \<times> rat) list \<Rightarrow> ('k \<times> rat) list) \<Rightarrow> nat \<Rightarrow> (derived_row \<Rightarrow> 'k::linorder option)
     \<Rightarrow> derived_row list \<Rightarrow> ('k \<times> rat) list" where
  "top_n sort_values n key rs = nlargest sort_values n (groupby_sum key Purchase_Order_Value rs)"

definition chart1 ::
  "((string \<times> rat) list \<Rightarrow> (string \<times> rat) list) \<Rightarrow> derived_row list \<Rightarrow> (string \<times> rat) list" where
  "chart1 sort_values rs = top_n sort_values 10 Supplier rs"

definition chart2 ::
  "((string \<times> rat) list \<Rightarrow> (string \<times> rat) list) \<Rightarrow> derived_row list \<Rightarrow> (string \<times> rat) list" where
  "chart2 sort_values rs = top_n sort_values 10 Cost_Center_Code rs"

subsection \<open>The whole script\<close>

text \<open>
  What the model takes from the libraries: the number parser of \<^verbatim>\<open>to_numeric\<close> and numpy's
  \<^verbatim>\<open>argsort\<close>, on value columns and on date columns.
\<close>

record pandas =
  parse_number :: "string \<Rightarrow> rat option"
  argsort_values :: "rat list \<Rightarrow> nat list"
  argsort_dates :: "date list \<Rightarrow> nat list"

text \<open>Everything the page shows when the filtered table is not empty.\<close>

record report =
  kpis :: totals
  summary_table :: "(string \<times> totals) list"
  trend_table :: "((date \<times> string) \<times> rat) list"
  cc_trend_table :: "((date \<times> string) \<times> rat) list"
  chart1_table :: "(string \<times> rat) list"
  chart2_table :: "(string \<times> rat) list"
  csv_rows :: "derived_row list"

text \<open>
  The run on an uploaded table: \<open>Inl (SchemaError cols)\<close> is the error message of line 29
  followed by \<^verbatim>\<open>st.stop()\<close>; \<open>Inr None\<close> is the warning of line 152 for an empty filtered
  table; \<open>Inr (Some rep)\<close> is the page.
\<close>

definition run :: "pandas \<Rightarrow> criteria \<Rightarrow> dataframe \<Rightarrow> error + report option" where
  "run lib c df =
     (if missing_cols df \<noteq> [] then Inl (SchemaError (missing_cols df))
      else
        (let fdf = filtered_df c (coerce_money (parse_number lib) (rows df)) in
         if fdf \<noteq> [] then
           Inr (Some
             \<lparr>kpis = sum_five fdf,
              summary_table = summary (argsort_values lib) fdf,
              trend_table = trend_df (argsort_dates lib) fdf,
              cc_trend_table = cc_trend_df (argsort_dates lib) fdf,
              chart1_table = chart1 (df_sort_values (argsort_values lib) snd False) fdf,
              chart2_table = chart2 (df_sort_values (argsort_values lib) snd False) fdf,
              csv_rows = fdf\<rparr>)
         else Inr None))"

subsection \<open>A stable sort, and the order of first occurrence\<close>

text \<open>\<open>stable_sort\<close> keeps rows with equal keys in their order.\<close>

definition stable_sort :: "('a \<Rightarrow> 'k::linorder) \<Rightarrow> 'a list \<Rightarrow> 'a list" where
  "stable_sort f xs = sort_key f xs"

text \<open>The order in which the keys of a column are first met in the rows.\<close>

definition first_seen :: "('r \<Rightarrow> 'k option) \<Rightarrow> 'r list \<Rightarrow> 'k list" where
  "first_seen key rs = rev (remdups (rev (List.map_filter key rs)))"

subsection \<open>Sort keys and the value of a cell in a sum\<close>

definition neg_value :: "'k \<times> rat \<Rightarrow> rat" where
  "neg_value row = - snd row"

definition cell_value :: "rat option \<Rightarrow> rat" where
  "cell_value v = (case v of None \<Rightarrow> 0 | Some x \<Rightarrow> x)"

subsection \<open>Sample data\<close>

text \<open>
  Rows, selections and tables on which the theorems below are run. \<open>row_A1\<close> and
  \<open>row_A2\<close> are the two records of the example scenario of the specification.
\<close>

definition sample_row ::
  "string option \<Rightarrow> string option \<Rightarrow> 'm \<Rightarrow> 'm \<Rightarrow> 'm \<Rightarrow> date option \<Rightarrow> 'm po_row" where
  "sample_row s cc po rc iv d =
     \<lparr>Supplier = s, Cost_Center_Code = cc, Purchase_Order_Value = po, Receipted_Value = rc,
      Invoiced_Value = iv, Report_Date = d, PO_Number = Null, Description = Null,
      Item_Description = Null\<rparr>"

definition row_A1 :: "rat option po_row" where
  "row_A1 = sample_row (Some ''A'') (Some ''CC1'') (Some 100) (Some 60) (Some 40) (Some 1)"

definition row_A2 :: "rat option po_row" where
  "row_A2 = sample_row (Some ''A'') (Some ''CC1'') (Some 200) (Some 0) (Some 0) (Some 2)"

definition row_B1 :: "rat option po_row" where
  "row_B1 = sample_row (Some ''B'') (Some ''CC2'') (Some 100) (Some 100) None (Some 1)"

definition row_null :: "rat option po_row" where
  "row_null = sample_row None None (Some 7) None (Some 3) (Some 1)"

definition all_dates :: criteria where
  "all_dates = \<lparr>date_range = (0, 10), selected_suppliers = [], selected_centers = []\<rparr>"

definition raw_row :: "cell po_row" where
  "raw_row = sample_row (Some ''A'') (Some ''CC1'') (Str ''N/A'') (Num 60) (Str ''40'') (Some 1)"

definition table_parser :: "string \<Rightarrow> rat option" where
  "table_parser s = (if s = ''40'' then Some 40 else if s = ''12.5'' then Some (25 / 2) else None)"

definition df_complete :: dataframe where
  "df_complete = \<lparr>columns = ''Region'' # required_cols, rows = [raw_row]\<rparr>"

definition df_short :: dataframe where
  "df_short = \<lparr>columns = [''Supplier'', ''PO Number'', ''Report Date''], rows = [raw_row]\<rparr>"

definition sample_pandas :: pandas where
  "sample_pandas =
     \<lparr>parse_number = table_parser, argsort_values = np_argsort, argsort_dates = np_argsort\<rparr>"

text \<open>
  Eighteen suppliers with one record each, all of the same date and the same value: the
  smallest table that the quicksort partitions.
\<close>

definition tied_names :: "string list" where
  "tied_names =
     [''S01'', ''S02'', ''S03'', ''S04'', ''S05'', ''S06'', ''S07'', ''S08'', ''S09'', ''S10'',
      ''S11'', ''S12'', ''S13'', ''S14'', ''S15'', ''S16'', ''S17'', ''S18'']"

definition tied_rows :: "rat option po_row list" where
  "tied_rows = map (\<lambda>s. sample_row (Some s) (Some s) (Some 100) (Some 60) (Some 40) (Some 1)) tied_names"

section \<open>Properties\<close>

subsection \<open>The quicksort ends\<close>

lemma scan_up_ge: "i \<le> scan_up v t vp i"
  by (induction v t vp i rule: scan_up.induct) (subst scan_up.simps, auto)

lemma scan_up_le: "scan_up v t vp i \<le> max i (length t - 1)"
  by (induction v t vp i rule: scan_up.induct) (subst scan_up.simps, auto)

lemma scan_down_le: "scan_down v t vp j \<le> j"
  by (induction v t vp j rule: scan_down.induct) (subst scan_down.simps, auto)

termination part_loop
proof (relation "measure (\<lambda>(v, vp, t, i, j). j - i)", goal_cases)
  case 1
  then show ?case by simp
next
  case (2 v vp t i j i' j')
  have "Suc i \<le> i'" using 2(1) scan_up_ge [of "Suc i" v t vp] by simp
  moreover have "j' \<le> j - 1" using 2(2) scan_down_le [of v t vp "j - 1"] by simp
  ultimately show ?case using 2(3) by simp
qed

declare part_loop.simps [simp del]

lemma length_swap: "length (swap i j xs) = length xs"
  by (simp add: swap_def)

lemma length_median3: "length (median3 v t) = length t"
  by (simp add: median3_def Let_def length_swap)

lemma part_loop_result:
  assumes "part_loop v vp t i j = (t', r)" and "j < length t"
  shows "length t' = length t \<and> r \<le> max (Suc i) (length t - 1)"
  using assms
proof (induction v vp t i j arbitrary: t' r rule: part_loop.induct)
  case (1 v vp t i j)
  define i' where "i' = scan_up v t vp (Suc i)"
  define j' where "j' = scan_down v t vp (j - 1)"
  have up: "i' \<le> max (Suc i) (length t - 1)" unfolding i'_def by (rule scan_up_le)
  have down: "j' \<le> j - 1" unfolding j'_def by (rule scan_down_le)
  show ?case
  proof (cases "j' \<le> i'")
    case True
    with 1(2) have "t' = t" "r = i'"
      by (auto simp: part_loop.simps [of v vp t i j] Let_def i'_def j'_def)
    with up show ?thesis by simp
  next
    case False
    with 1(2) have eq: "part_loop v vp (swap i' j' t) i' j' = (t', r)"
      by (simp add: part_loop.simps [of v vp t i j] Let_def i'_def j'_def)
    have "j' < length (swap i' j' t)" using down 1(3) by (simp add: length_swap)
    from 1(1) [OF i'_def j'_def False eq this]
    have "length t' = length t" and "r \<le> max (Suc i') (length t - 1)"
      by (simp_all add: length_swap)
    moreover have "Suc i' \<le> length t - 1" using False down 1(3) by simp
    ultimately show ?thesis by simp
  qed
qed

lemma qs_partition_result:
  assumes "qs_partition v t = (t', r)" and "2 < length t"
  shows "length t' = length t \<and> r < length t"
proof -
  define pr where "pr = length t - 1"
  define t1 where "t1 = swap (pr div 2) (pr - 1) (median3 v t)"
  obtain t2 r2 where p: "part_loop v (v ! (median3 v t ! (pr div 2))) t1 0 (pr - 1) = (t2, r2)"
    by (cases "part_loop v (v ! (median3 v t ! (pr div 2))) t1 0 (pr - 1)")
  have l: "length t1 = length t" by (simp add: t1_def length_swap length_median3)
  have "pr - 1 < length t1" using assms(2) by (simp add: l pr_def)
  from part_loop_result [OF p this]
  have "length t2 = length t" and "r2 \<le> max (Suc 0) (length t - 1)" by (simp_all add: l)
  moreover have "t' = swap r2 (pr - 1) t2" and "r = r2"
    using assms(1) p by (auto simp: qs_partition_def Let_def pr_def t1_def)
  ultimately show ?thesis using assms(2) by (simp add: length_swap)
qed

termination quick_loop
proof (relation "measure (\<lambda>(v, cdepth, t). length t)", goal_cases)
  case 1
  then show ?case by simp
next
  case (2 v cdepth t x t' i)
  then show ?case using qs_partition_result [of v t t' i] by simp
next
  case (3 v cdepth t x t' i)
  then show ?case using qs_partition_result [of v t t' i] by simp
next
  case (4 v cdepth t x t' i)
  then show ?case using qs_partition_result [of v t t' i] by simp
next
  case (5 v cdepth t x t' i)
  then show ?case using qs_partition_result [of v t t' i] by simp
qed

declare quick_loop.simps [simp del]


subsection \<open>Basic facts about rows and samples\<close>

lemma add_derived_base:
  "Supplier (add_derived r) = Supplier r"
  "Cost_Center_Code (add_derived r) = Cost_Center_Code r"
  "Purchase_Order_Value (add_derived r) = Purchase_Order_Value r"
  "Receipted_Value (add_derived r) = Receipted_Value r"
  "Invoiced_Value (add_derived r) = Invoiced_Value r"
  "Report_Date (add_derived r) = Report_Date r"
  "Unreceipted_Value (add_derived r) = sub_null (Purchase_Order_Value r) (Receipted_Value r)"
  "Uninvoiced_Value (add_derived r) = sub_null (Receipted_Value r) (Invoiced_Value r)"
  by (simp_all add: add_derived_def po_row.defs derived_row.defs)

lemma truncate_add_derived: "po_row.truncate (add_derived r) = r"
  by (simp add: add_derived_def po_row.defs derived_row.defs)

lemmas sample_defs =
  sample_row_def row_A1_def row_A2_def row_B1_def row_null_def all_dates_def

lemma filter_rows_sample:
  "filter_rows all_dates [row_A1, row_null] = [row_A1, row_null]"
  by (simp add: filter_rows_def mask_def sample_defs)

subsection \<open>Derived columns\<close>

text \<open>
  Claim C3. For every record of the annotated subset, the unreceipted value is the
  purchase order value minus the receipted value and the uninvoiced value is the
  receipted value minus the invoiced value; each is missing whenever one of its operands
  is missing. Annotation is a total function that never fails: it returns one row for
  each filtered row, with the nine base columns unchanged.
\<close>

theorem C3_derived_columns:
  assumes "d \<in> set (filtered_df c rs)"
  shows "Unreceipted_Value d =
           (case Purchase_Order_Value d of None \<Rightarrow> None
            | Some p \<Rightarrow> (case Receipted_Value d of None \<Rightarrow> None | Some q \<Rightarrow> Some (p - q)))
       \<and> Uninvoiced_Value d =
           (case Receipted_Value d of None \<Rightarrow> None
            | Some q \<Rightarrow> (case Invoiced_Value d of None \<Rightarrow> None | Some i \<Rightarrow> Some (q - i)))
       \<and> map po_row.truncate (filtered_df c rs) = filter_rows c rs"
proof -
  from assms obtain r where d: "d = add_derived r"
    by (auto simp: filtered_df_def)
  have "map po_row.truncate (filtered_df c rs) = filter_rows c rs"
    by (simp add: filtered_df_def truncate_add_derived o_def)
  then show ?thesis
    unfolding d by (simp add: add_derived_base sub_null_def split: option.splits)
qed

theorem C3_derived_columns_witness:
  "add_derived row_A1 \<in> set (filtered_df all_dates [row_A1, row_null])
   \<and> add_derived row_null \<in> set (filtered_df all_dates [row_A1, row_null])
   \<and> Unreceipted_Value (add_derived row_A1) = Some 40
   \<and> Uninvoiced_Value (add_derived row_A1) = Some 20
   \<and> Unreceipted_Value (add_derived row_null) = None
   \<and> Uninvoiced_Value (add_derived row_null) = None
   \<and> map po_row.truncate (filtered_df all_dates [row_A1, row_null]) = [row_A1, row_null]"
proof -
  have a: "add_derived row_A1 \<in> set (filtered_df all_dates [row_A1, row_null])"
    and n: "add_derived row_null \<in> set (filtered_df all_dates [row_A1, row_null])"
    by (simp_all add: filtered_df_def filter_rows_sample)
  show ?thesis
    using a n C3_derived_columns [OF a] C3_derived_columns [OF n]
    by (simp add: add_derived_base sub_null_def sample_defs filtered_df_def filter_rows_def
        mask_def truncate_add_derived)
qed

subsection \<open>Filtering twice\<close>

text \<open>
  Claim C8. Filtering an already filtered list with the same criteria changes nothing,
  and the filtered list keeps the rows in the order of the input.
\<close>

theorem C8_filter_twice:
  "filter_rows c (filter_rows c rs) = filter_rows c rs \<and> subseq (filter_rows c rs) rs"
  by (simp add: filter_rows_def)

theorem C8_filter_twice_witness:
  "filter_rows all_dates (filter_rows all_dates [row_A1, row_null]) = [row_A1, row_null]
   \<and> subseq [row_A1, row_null] [row_A1, row_null]"
  using C8_filter_twice [of all_dates "[row_A1, row_null]"]
  by (simp add: filter_rows_sample)

subsection \<open>Column check\<close>

lemma set_missing_cols: "set (missing_cols df) = set required_cols - set (columns df)"
  by (auto simp: missing_cols_def)

text \<open>
  Claim C6. If a required column is absent, the run ends with a schema error that lists
  exactly the required columns that are absent, and nothing is filtered or aggregated:
  the result carries no table. If every required column is present, the run does not end
  with a schema error.
\<close>

theorem C6_schema_check:
  "((\<exists>col \<in> set required_cols. col \<notin> set (columns df)) \<longrightarrow>
      run lib c df = Inl (SchemaError (missing_cols df))
      \<and> set (missing_cols df) = set required_cols - set (columns df)
      \<and> missing_cols df \<noteq> [])
   \<and> (set required_cols \<subseteq> set (columns df) \<longrightarrow> (\<exists>res. run lib c df = Inr res))"
proof (intro conjI impI)
  assume a: "\<exists>col \<in> set required_cols. col \<notin> set (columns df)"
  then have "set (missing_cols df) \<noteq> {}" by (auto simp: set_missing_cols)
  then show ne: "missing_cols df \<noteq> []" by auto
  then show "run lib c df = Inl (SchemaError (missing_cols df))" by (simp add: run_def)
  show "set (missing_cols df) = set required_cols - set (columns df)" by (rule set_missing_cols)
next
  assume "set required_cols \<subseteq> set (columns df)"
  then have "set (missing_cols df) = {}" by (auto simp: set_missing_cols)
  then have "missing_cols df = []" by simp
  then show "\<exists>res. run lib c df = Inr res" by (simp add: run_def Let_def)
qed

theorem C6_schema_check_witness:
  "(\<exists>col \<in> set required_cols. col \<notin> set (columns df_short))
   \<and> run sample_pandas all_dates df_short =
       Inl (SchemaError [''Cost Center Code'', ''Purchase Order Value'', ''Receipted Value'',
                         ''Invoiced Value'', ''Description'', ''Item Description''])
   \<and> set required_cols \<subseteq> set (columns df_complete)
   \<and> (\<exists>res. run sample_pandas all_dates df_complete = Inr res)"
proof -
  have s: "\<exists>col \<in> set required_cols. col \<notin> set (columns df_short)"
    by (simp add: required_cols_def df_short_def)
  have m: "missing_cols df_short =
       [''Cost Center Code'', ''Purchase Order Value'', ''Receipted Value'',
        ''Invoiced Value'', ''Description'', ''Item Description'']"
    by (simp add: missing_cols_def required_cols_def df_short_def)
  have c: "set required_cols \<subseteq> set (columns df_complete)"
    by (auto simp: df_complete_def)
  show ?thesis
    using s c m C6_schema_check [of df_short sample_pandas all_dates]
      C6_schema_check [of df_complete sample_pandas all_dates]
    by simp
qed

subsection \<open>Numeric coercion\<close>

text \<open>
  Claim C7. In each of the three monetary columns a text that does not parse as a number
  becomes missing, every other value becomes its number, and no row is dropped: the
  coerced table has as many rows as the input and all other columns are unchanged.
\<close>

theorem C7_coercion:
  assumes "i < length rs"
  shows "length (coerce_money parse rs) = length rs
     \<and> Purchase_Order_Value (coerce_money parse rs ! i) =
         (case Purchase_Order_Value (rs ! i) of Null \<Rightarrow> None | Num x \<Rightarrow> Some x | Str s \<Rightarrow> parse s)
     \<and> Receipted_Value (coerce_money parse rs ! i) =
         (case Receipted_Value (rs ! i) of Null \<Rightarrow> None | Num x \<Rightarrow> Some x | Str s \<Rightarrow> parse s)
     \<and> Invoiced_Value (coerce_money parse rs ! i) =
         (case Invoiced_Value (rs ! i) of Null \<Rightarrow> None | Num x \<Rightarrow> Some x | Str s \<Rightarrow> parse s)
     \<and> Supplier (coerce_money parse rs ! i) = Supplier (rs ! i)
     \<and> Cost_Center_Code (coerce_money parse rs ! i) = Cost_Center_Code (rs ! i)
     \<and> Report_Date (coerce_money parse rs ! i) = Report_Date (rs ! i)
     \<and> PO_Number (coerce_money parse rs ! i) = PO_Number (rs ! i)
     \<and> Description (coerce_money parse rs ! i) = Description (rs ! i)
     \<and> Item_Description (coerce_money parse rs ! i) = Item_Description (rs ! i)"
  using assms by (simp add: coerce_money_def coerce_row_def to_numeric_def)

theorem C7_coercion_witness:
  "(0::nat) < length [raw_row]
   \<and> length (coerce_money table_parser [raw_row]) = 1
   \<and> Purchase_Order_Value (coerce_money table_parser [raw_row] ! 0) = None
   \<and> Receipted_Value (coerce_money table_parser [raw_row] ! 0) = Some 60
   \<and> Invoiced_Value (coerce_money table_parser [raw_row] ! 0) = Some 40
   \<and> Supplier (coerce_money table_parser [raw_row] ! 0) = Some ''A''"
  using C7_coercion [of 0 "[raw_row]" table_parser]
  by (simp add: raw_row_def sample_row_def table_parser_def)

subsection \<open>Groups and their sums\<close>

lemma set_map_filter_Some: "set (List.map_filter f xs) = {y. \<exists>x\<in>set xs. f x = Some y}"
  by (induction xs) (auto simp: List.map_filter_simps split: option.splits)

lemma set_group_keys: "set (group_keys key rs) = {k. \<exists>r\<in>set rs. key r = Some k}"
  by (simp add: group_keys_def set_map_filter_Some)

lemma distinct_group_keys: "distinct (group_keys key rs)"
  by (simp add: group_keys_def)

lemma sorted_group_keys: "sorted_wrt (<) (group_keys key rs)"
  by (simp add: group_keys_def strict_sorted_iff)

lemma map_fst_groupby_sum: "map fst (groupby_sum key col rs) = group_keys key rs"
  by (simp add: groupby_sum_def o_def)

lemma map_fst_groupby_sum_five: "map fst (groupby_sum_five rs) = group_keys Supplier rs"
  by (simp add: groupby_sum_five_def o_def)

lemma sorts_by_mset: "sorts_by le srt \<Longrightarrow> mset (srt xs) = mset xs"
  by (simp add: sorts_by_def)

lemma sorts_by_set: "sorts_by le srt \<Longrightarrow> set (srt xs) = set xs"
  by (metis sorts_by_mset set_mset_mset)

lemma sorts_by_length: "sorts_by le srt \<Longrightarrow> length (srt xs) = length xs"
  by (metis sorts_by_mset size_mset)

subsection \<open>A stable sort of the whole series, and evaluation on the samples\<close>

lemma sorted_wrt_sort_key: "sorted_wrt (\<lambda>a b. f a \<le> f b) (sort_key f xs)"
  using sorted_sort_key [of f xs] by (simp only: sorted_map)

lemma sorts_by_stable_sort: "sorts_by (\<lambda>a b. f a \<le> f b) (stable_sort f)"
  by (simp add: sorts_by_def stable_sort_def sorted_wrt_sort_key)

lemma value_descending_conv: "value_descending = (\<lambda>a b. neg_value a \<le> neg_value b)"
  by (simp add: value_descending_def neg_value_def fun_eq_iff)

lemma stable_value_sort_ok: "sorts_by value_descending (stable_sort neg_value)"
  unfolding value_descending_conv by (rule sorts_by_stable_sort)

lemmas eval_defs =
  filtered_df_def filter_rows_def mask_def isin_def add_derived_base sub_null_def
  sum_five_def sum_skipna_def groupby_sum_five_def groupby_sum_def group_keys_def
  group_rows_def key2_def List.map_filter_def summary_def trend_df_def cc_trend_df_def
  top_n_def chart1_def chart2_def nlargest_def stable_sort_def
  neg_value_def cell_value_def all_suppliers_def all_centers_def sorted_unique_def

subsection \<open>What \<^verbatim>\<open>sort_values\<close> returns\<close>

text \<open>
  For an \<^verbatim>\<open>argsort\<close> that returns the positions of the keys it is handed in ascending key
  order, \<^verbatim>\<open>sort_values\<close> returns the rows of the table, each once, in ascending order of the
  sort column, or in descending order when \<^verbatim>\<open>ascending=False\<close>.
\<close>

lemma argsort_ok_mset:
  assumes "argsort_ok argsort ks"
  shows "mset (argsort ks) = mset [0..<length ks]"
proof -
  have "mset (sort (argsort ks)) = mset [0..<length ks]"
    using assms by (simp add: argsort_ok_def)
  then show ?thesis by simp
qed

lemma argsort_ok_set:
  assumes "argsort_ok argsort ks"
  shows "set (argsort ks) = {0..<length ks}"
  using argsort_ok_mset [OF assms] by (metis set_mset_mset set_upt)

lemma argsort_ok_sorted:
  "argsort_ok argsort ks \<Longrightarrow> sorted (map (\<lambda>i. ks ! i) (argsort ks))"
  by (simp add: argsort_ok_def)

lemma mset_map_nth_perm:
  assumes "mset a = mset [0..<length xs]"
  shows "mset (map (\<lambda>i. xs ! i) a) = mset xs"
proof -
  have "mset (map (\<lambda>i. xs ! i) a) = image_mset (\<lambda>i. xs ! i) (mset a)" by simp
  also have "\<dots> = mset (map (\<lambda>i. xs ! i) [0..<length xs])" by (simp add: assms)
  also have "\<dots> = mset xs" by (simp add: map_nth)
  finally show ?thesis .
qed

lemma nargsort_ascending:
  assumes "argsort_ok argsort ks"
  shows "nargsort argsort True ks = argsort ks"
proof -
  have "\<And>i. i \<in> set (argsort ks) \<Longrightarrow> [0..<length ks] ! i = i"
    by (simp add: argsort_ok_set [OF assms])
  then have "map (\<lambda>i. [0..<length ks] ! i) (argsort ks) = argsort ks"
    by (simp add: map_idI)
  then show ?thesis by (simp add: nargsort_def)
qed

lemma nargsort_descending:
  assumes "argsort_ok argsort (rev ks)"
  shows "nargsort argsort False ks = rev (map (\<lambda>i. length ks - 1 - i) (argsort (rev ks)))"
proof -
  have "\<And>i. i \<in> set (argsort (rev ks)) \<Longrightarrow> rev [0..<length ks] ! i = length ks - 1 - i"
    using argsort_ok_set [OF assms] by (simp add: rev_nth)
  then have "map (\<lambda>i. rev [0..<length ks] ! i) (argsort (rev ks))
               = map (\<lambda>i. length ks - 1 - i) (argsort (rev ks))"
    by simp
  then show ?thesis by (simp add: nargsort_def)
qed

lemma map_mirror_upt: "map (\<lambda>i. n - 1 - i) [0..<n] = rev [0..<n]"
  by (rule nth_equalityI) (simp_all add: rev_nth)

lemma df_sort_values_ascending:
  assumes "argsort_ok argsort (map by df)"
  shows "mset (df_sort_values argsort by True df) = mset df"
    and "sorted (map by (df_sort_values argsort by True df))"
proof -
  have eq: "df_sort_values argsort by True df = map (\<lambda>i. df ! i) (argsort (map by df))"
    by (simp add: df_sort_values_def nargsort_ascending [OF assms])
  have m: "mset (argsort (map by df)) = mset [0..<length df]"
    using argsort_ok_mset [OF assms] by simp
  show "mset (df_sort_values argsort by True df) = mset df"
    unfolding eq by (rule mset_map_nth_perm [OF m])
  have "\<And>i. i \<in> set (argsort (map by df)) \<Longrightarrow> by (df ! i) = map by df ! i"
    using argsort_ok_set [OF assms] by simp
  then have k: "map by (df_sort_values argsort by True df)
               = map (\<lambda>i. map by df ! i) (argsort (map by df))"
    unfolding eq by simp
  show "sorted (map by (df_sort_values argsort by True df))"
    unfolding k by (rule argsort_ok_sorted [OF assms])
qed

lemma df_sort_values_descending:
  assumes "argsort_ok argsort (rev (map by df))"
  shows "mset (df_sort_values argsort by False df) = mset df"
    and "sorted (rev (map by (df_sort_values argsort by False df)))"
proof -
  define a where "a = argsort (rev (map by df))"
  define n where "n = length df"
  have eq: "df_sort_values argsort by False df = rev (map (\<lambda>i. df ! (n - 1 - i)) a)"
    by (simp add: df_sort_values_def nargsort_descending [OF assms] a_def n_def rev_map o_def)
  have m: "mset a = mset [0..<n]"
    using argsort_ok_mset [OF assms] by (simp add: a_def n_def)
  have s: "set a = {0..<n}"
    using argsort_ok_set [OF assms] by (simp add: a_def n_def)
  have "mset (map (\<lambda>i. n - 1 - i) a) = image_mset (\<lambda>i. n - 1 - i) (mset a)" by simp
  also have "\<dots> = mset (map (\<lambda>i. n - 1 - i) [0..<n])" by (simp add: m)
  also have "\<dots> = mset [0..<n]" by (simp only: map_mirror_upt mset_rev)
  finally have m': "mset (map (\<lambda>i. n - 1 - i) a) = mset [0..<length df]" by (simp add: n_def)
  have "mset (map (\<lambda>i. df ! i) (map (\<lambda>i. n - 1 - i) a)) = mset df"
    by (rule mset_map_nth_perm [OF m'])
  then show "mset (df_sort_values argsort by False df) = mset df"
    unfolding eq by (simp add: o_def)
  have "\<And>i. i \<in> set a \<Longrightarrow> by (df ! (n - 1 - i)) = rev (map by df) ! i"
    using s by (simp add: rev_nth n_def)
  then have "map by (map (\<lambda>i. df ! (n - 1 - i)) a) = map (\<lambda>i. rev (map by df) ! i) a"
    by simp
  then have k: "rev (map by (df_sort_values argsort by False df))
                  = map (\<lambda>i. rev (map by df) ! i) (argsort (rev (map by df)))"
    unfolding eq by (simp add: rev_map a_def)
  show "sorted (rev (map by (df_sort_values argsort by False df)))"
    unfolding k by (rule argsort_ok_sorted [OF assms])
qed

lemma sorted_wrt_adjacent:
  assumes "sorted_wrt R xs" and "Suc i < length xs"
  shows "R (xs ! i) (xs ! Suc i)"
  using assms by (simp add: sorted_wrt_nth_less)

lemma mset_eq_distinct_map:
  assumes "mset xs = mset ys"
  shows "distinct (map f xs) = distinct (map f ys)"
proof -
  have "mset (map f xs) = mset (map f ys)" using assms by simp
  then show ?thesis by (rule mset_eq_imp_distinct_iff)
qed

lemma mset_eq_set_map:
  assumes "mset xs = mset ys"
  shows "set (map f xs) = set (map f ys)"
  using mset_eq_setD [OF assms] by simp

lemma summary_mset:
  assumes "argsort_ok argsort (rev (map (\<lambda>row. total_po (snd row)) (groupby_sum_five rs)))"
  shows "mset (summary argsort rs) = mset (groupby_sum_five rs)"
  unfolding summary_def by (rule df_sort_values_descending(1) [OF assms])

lemma summary_sorted:
  assumes "argsort_ok argsort (rev (map (\<lambda>row. total_po (snd row)) (groupby_sum_five rs)))"
  shows "sorted_wrt (\<lambda>a b. total_po (snd b) \<le> total_po (snd a)) (summary argsort rs)"
proof -
  have "sorted (rev (map (\<lambda>row. total_po (snd row)) (summary argsort rs)))"
    unfolding summary_def by (rule df_sort_values_descending(2) [OF assms])
  then have "sorted_wrt (\<lambda>x y. y \<le> x) (map (\<lambda>row. total_po (snd row)) (summary argsort rs))"
    by (simp only: sorted_wrt_rev)
  then show ?thesis by (simp only: sorted_wrt_map)
qed

subsection \<open>KPI total and supplier summary\<close>










subsection \<open>Empty selections\<close>

lemma isin_all:
  assumes "r \<in> set rs"
  shows "isin (col r) (sorted_unique col rs) = (col r \<noteq> None)"
  using assms by (auto simp: isin_def sorted_unique_def set_map_filter_Some split: option.splits)

lemma sorted_unique_Nil: "sorted_unique col rs = [] \<longleftrightarrow> (\<forall>r\<in>set rs. col r = None)"
proof -
  have "sorted_unique col rs = [] \<longleftrightarrow> set (sorted_unique col rs) = {}" by simp
  also have "\<dots> \<longleftrightarrow> (\<forall>r\<in>set rs. col r = None)"
    by (auto simp: sorted_unique_def set_map_filter_Some) (metis not_Some_eq)
  finally show ?thesis .
qed

text \<open>
  Claim C2, as amended. With an empty supplier selection the mask does not look at the
  supplier, so rows without supplier pass as well. Selecting every supplier present in
  the data gives the same rows except those without supplier (and exactly the same rows
  when the data has no supplier at all, the selection then being empty again). The same
  holds for the cost centre selection. As stated, with equality for every record list,
  the claim fails on a list that holds a row without supplier.
\<close>

theorem C2_empty_selection:
  "(selected_suppliers c = [] \<longrightarrow>
      mask c (r\<lparr>Supplier := s\<rparr>) = mask c r
      \<and> filter_rows (c\<lparr>selected_suppliers := all_suppliers rs\<rparr>) rs
          = (if all_suppliers rs = [] then filter_rows c rs
             else filter (\<lambda>r. Supplier r \<noteq> None) (filter_rows c rs)))
   \<and> (selected_centers c = [] \<longrightarrow>
      mask c (r\<lparr>Cost_Center_Code := s\<rparr>) = mask c r
      \<and> filter_rows (c\<lparr>selected_centers := all_centers rs\<rparr>) rs
          = (if all_centers rs = [] then filter_rows c rs
             else filter (\<lambda>r. Cost_Center_Code r \<noteq> None) (filter_rows c rs)))"
proof (intro conjI impI)
  assume e: "selected_suppliers c = []"
  show "mask c (r\<lparr>Supplier := s\<rparr>) = mask c r" using e by (simp add: mask_def)
  show "filter_rows (c\<lparr>selected_suppliers := all_suppliers rs\<rparr>) rs
          = (if all_suppliers rs = [] then filter_rows c rs
             else filter (\<lambda>r. Supplier r \<noteq> None) (filter_rows c rs))"
  proof (cases "all_suppliers rs = []")
    case True
    then have "c\<lparr>selected_suppliers := all_suppliers rs\<rparr> = c" using e by simp
    with True show ?thesis by simp
  next
    case False
    have "\<And>x. x \<in> set rs \<Longrightarrow>
            mask (c\<lparr>selected_suppliers := all_suppliers rs\<rparr>) x = (Supplier x \<noteq> None \<and> mask c x)"
      using False e by (auto simp: mask_def all_suppliers_def isin_all split: option.splits)
    then show ?thesis using False
      by (auto simp: filter_rows_def intro: filter_cong)
  qed
next
  assume e: "selected_centers c = []"
  show "mask c (r\<lparr>Cost_Center_Code := s\<rparr>) = mask c r" using e by (simp add: mask_def)
  show "filter_rows (c\<lparr>selected_centers := all_centers rs\<rparr>) rs
          = (if all_centers rs = [] then filter_rows c rs
             else filter (\<lambda>r. Cost_Center_Code r \<noteq> None) (filter_rows c rs))"
  proof (cases "all_centers rs = []")
    case True
    then have "c\<lparr>selected_centers := all_centers rs\<rparr> = c" using e by simp
    with True show ?thesis by simp
  next
    case False
    have "\<And>x. x \<in> set rs \<Longrightarrow>
            mask (c\<lparr>selected_centers := all_centers rs\<rparr>) x = (Cost_Center_Code x \<noteq> None \<and> mask c x)"
      using False e by (auto simp: mask_def all_centers_def isin_all split: option.splits)
    then show ?thesis using False
      by (auto simp: filter_rows_def intro: filter_cong)
  qed
qed

theorem C2_empty_selection_witness:
  "selected_suppliers all_dates = [] \<and> selected_centers all_dates = []
   \<and> filter_rows (all_dates\<lparr>selected_suppliers := all_suppliers [row_null, row_A1]\<rparr>)
        [row_null, row_A1] = [row_A1]
   \<and> filter_rows (all_dates\<lparr>selected_centers := all_centers [row_null, row_A1]\<rparr>)
        [row_null, row_A1] = [row_A1]"
proof -
  have a: "all_suppliers [row_null, row_A1] = [''A'']" "all_centers [row_null, row_A1] = [''CC1'']"
    by (simp_all add: eval_defs sample_defs)
  have f: "filter_rows all_dates [row_null, row_A1] = [row_null, row_A1]"
    by (simp add: eval_defs sample_defs)
  have e: "selected_suppliers all_dates = []" "selected_centers all_dates = []"
    by (simp_all add: all_dates_def)
  have n: "Supplier row_null = None" "Supplier row_A1 \<noteq> None"
    "Cost_Center_Code row_null = None" "Cost_Center_Code row_A1 \<noteq> None"
    by (simp_all add: sample_defs)
  show ?thesis
    using C2_empty_selection [where c = all_dates and r = row_A1 and s = None
        and rs = "[row_null, row_A1]"] e
    by (simp add: a f n)
qed

theorem C2_null_supplier_counterexample:
  "selected_suppliers all_dates = []
   \<and> filter_rows all_dates [row_null, row_A1] = [row_null, row_A1]
   \<and> all_suppliers [row_null, row_A1] = [''A'']
   \<and> filter_rows (all_dates\<lparr>selected_suppliers := [''A'']\<rparr>) [row_null, row_A1] = [row_A1]
   \<and> filter_rows all_dates [row_null, row_A1]
       \<noteq> filter_rows (all_dates\<lparr>selected_suppliers := all_suppliers [row_null, row_A1]\<rparr>)
            [row_null, row_A1]"
  by (simp add: eval_defs sample_defs)

subsection \<open>Rows with a missing group key\<close>









subsection \<open>Order of the supplier summary\<close>

text \<open>
  Claim C4, as amended. For every filtered subset, if \<^verbatim>\<open>argsort\<close> returns the positions of
  the keys that \<^verbatim>\<open>sort_values\<close> hands to it (the sums in reverse group order) in ascending
  key order, then the rows of the supplier summary stand in descending order of the
  summed purchase order value, and they are the groups of the subset: one row for each
  supplier that occurs. The order among rows with equal sums is not fixed: the script
  leaves \<^verbatim>\<open>kind\<close> at its default, the quicksort, which does not keep equal keys in order once
  it partitions. As stated, with ties in group order for every filtered subset, the claim
  fails: eighteen suppliers with equal sums come back from the quicksort in another order
  than that of the groups. Two tied suppliers keep their order, as the witness shows.
\<close>

theorem C4_summary_descending:
  assumes "argsort_ok argsort (rev (map (\<lambda>row. total_po (snd row)) (groupby_sum_five rs)))"
  shows "sorted_wrt (\<lambda>a b. total_po (snd b) \<le> total_po (snd a)) (summary argsort rs)
     \<and> mset (summary argsort rs) = mset (groupby_sum_five rs)
     \<and> distinct (map fst (summary argsort rs))
     \<and> set (map fst (summary argsort rs)) = {s. \<exists>r\<in>set rs. Supplier r = Some s}"
proof -
  note m = summary_mset [OF assms]
  have 3: "distinct (map fst (summary argsort rs))"
    by (simp only: mset_eq_distinct_map [OF m] map_fst_groupby_sum_five distinct_group_keys)
  have 4: "set (map fst (summary argsort rs)) = {s. \<exists>r\<in>set rs. Supplier r = Some s}"
    by (simp only: mset_eq_set_map [OF m] map_fst_groupby_sum_five set_group_keys)
  from summary_sorted [OF assms] m 3 4 show ?thesis by blast
qed

theorem C4_summary_descending_witness:
  "argsort_ok np_argsort
     (rev (map (\<lambda>row. total_po (snd row))
        (groupby_sum_five (filtered_df all_dates [row_B1, row_A1, row_A2]))))
   \<and> map fst (summary np_argsort (filtered_df all_dates [row_B1, row_A1, row_A2])) = [''A'', ''B'']
   \<and> map (\<lambda>row. total_po (snd row))
        (summary np_argsort (filtered_df all_dates [row_B1, row_A1, row_A2])) = [300, 100]
   \<and> map fst (summary np_argsort (filtered_df all_dates [row_A1, row_B1])) = [''A'', ''B'']
   \<and> map (\<lambda>row. total_po (snd row))
        (summary np_argsort (filtered_df all_dates [row_A1, row_B1])) = [100, 100]"
proof -
  have h: "argsort_ok np_argsort
     (rev (map (\<lambda>row. total_po (snd row))
        (groupby_sum_five (filtered_df all_dates [row_B1, row_A1, row_A2]))))"
    by code_simp
  have e: "map fst (summary np_argsort (filtered_df all_dates [row_B1, row_A1, row_A2])) = [''A'', ''B'']"
    "map (\<lambda>row. total_po (snd row))
        (summary np_argsort (filtered_df all_dates [row_B1, row_A1, row_A2])) = [300, 100]"
    "map fst (summary np_argsort (filtered_df all_dates [row_A1, row_B1])) = [''A'', ''B'']"
    "map (\<lambda>row. total_po (snd row))
        (summary np_argsort (filtered_df all_dates [row_A1, row_B1])) = [100, 100]"
    by code_simp+
  show ?thesis
    using C4_summary_descending [OF h] h e by simp
qed

theorem C4_summary_ties_counterexample:
  "map fst (groupby_sum_five (filtered_df all_dates tied_rows)) = tied_names
   \<and> map (\<lambda>row. total_po (snd row)) (groupby_sum_five (filtered_df all_dates tied_rows))
       = replicate 18 100
   \<and> map fst (summary np_argsort (filtered_df all_dates tied_rows))
       = map (\<lambda>i. tied_names ! i) [0, 1, 16, 15, 14, 13, 12, 11, 10, 9, 8, 7, 6, 5, 4, 3, 2, 17]
   \<and> map fst (summary np_argsort (filtered_df all_dates tied_rows))
       \<noteq> map fst (groupby_sum_five (filtered_df all_dates tied_rows))"
  by code_simp

subsection \<open>Order of the trend tables\<close>

lemma key2_Some:
  "key2 k1 k2 r = Some (a, b) \<longleftrightarrow> k1 r = Some a \<and> k2 r = Some b"
  by (auto simp: key2_def split: option.splits)

lemma trend_props:
  fixes key :: "derived_row \<Rightarrow> string option"
  assumes "argsort_ok argsort
             (map (\<lambda>row. fst (fst row)) (groupby_sum (key2 Report_Date key) Purchase_Order_Value rs))"
  defines "t \<equiv> df_sort_values argsort (\<lambda>row. fst (fst row)) True
                 (groupby_sum (key2 Report_Date key) Purchase_Order_Value rs)"
  shows "\<forall>i. Suc i < length t \<longrightarrow> fst (fst (t ! i)) \<le> fst (fst (t ! Suc i))"
    and "mset t = mset (groupby_sum (key2 Report_Date key) Purchase_Order_Value rs)"
    and "distinct (map fst t)"
    and "set (map fst t) = {(d, s). \<exists>r\<in>set rs. Report_Date r = Some d \<and> key r = Some s}"
proof -
  show m: "mset t = mset (groupby_sum (key2 Report_Date key) Purchase_Order_Value rs)"
    unfolding t_def by (rule df_sort_values_ascending(1) [OF assms(1)])
  have "sorted (map (\<lambda>row. fst (fst row)) t)"
    unfolding t_def by (rule df_sort_values_ascending(2) [OF assms(1)])
  then have s: "sorted_wrt (\<lambda>a b. fst (fst a) \<le> fst (fst b)) t"
    by (simp only: sorted_wrt_map)
  show "\<forall>i. Suc i < length t \<longrightarrow> fst (fst (t ! i)) \<le> fst (fst (t ! Suc i))"
    using sorted_wrt_adjacent [OF s] by blast
  show "distinct (map fst t)"
    by (simp only: mset_eq_distinct_map [OF m] map_fst_groupby_sum distinct_group_keys)
  have "set (map fst t) = {k. \<exists>r\<in>set rs. key2 Report_Date key r = Some k}"
    by (simp only: mset_eq_set_map [OF m] map_fst_groupby_sum set_group_keys)
  also have "\<dots> = {(d, s). \<exists>r\<in>set rs. Report_Date r = Some d \<and> key r = Some s}"
    by (auto simp: key2_Some)
  finally show "set (map fst t) = {(d, s). \<exists>r\<in>set rs. Report_Date r = Some d \<and> key r = Some s}" .
qed

text \<open>
  Claim C9, as amended. For every filtered subset, if \<^verbatim>\<open>argsort\<close> returns the positions of
  the dates that \<^verbatim>\<open>sort_values\<close> hands to it in ascending order, then each of the two trend
  tables is in ascending order of the report date (each row's date is at most the next
  row's date), and its rows are the groups of the subset: one row for each pair of date
  and supplier (or cost centre) that occurs, and no other. The order among rows of the
  same date is not fixed, for the reason given at C4. As stated, with rows of one date in
  string order of the second column, the claim fails: eighteen suppliers on one date come
  back from the quicksort out of string order.
\<close>

theorem C9_trend_ascending:
  assumes "argsort_ok argsort
             (map (\<lambda>row. fst (fst row))
                (groupby_sum (key2 Report_Date Supplier) Purchase_Order_Value rs))"
    and "argsort_ok argsort
             (map (\<lambda>row. fst (fst row))
                (groupby_sum (key2 Report_Date Cost_Center_Code) Purchase_Order_Value rs))"
  shows "(\<forall>i. Suc i < length (trend_df argsort rs) \<longrightarrow>
            fst (fst (trend_df argsort rs ! i)) \<le> fst (fst (trend_df argsort rs ! Suc i)))
     \<and> (\<forall>i. Suc i < length (cc_trend_df argsort rs) \<longrightarrow>
            fst (fst (cc_trend_df argsort rs ! i)) \<le> fst (fst (cc_trend_df argsort rs ! Suc i)))
     \<and> mset (trend_df argsort rs)
         = mset (groupby_sum (key2 Report_Date Supplier) Purchase_Order_Value rs)
     \<and> mset (cc_trend_df argsort rs)
         = mset (groupby_sum (key2 Report_Date Cost_Center_Code) Purchase_Order_Value rs)
     \<and> distinct (map fst (trend_df argsort rs))
     \<and> distinct (map fst (cc_trend_df argsort rs))
     \<and> set (map fst (trend_df argsort rs))
         = {(d, s). \<exists>r\<in>set rs. Report_Date r = Some d \<and> Supplier r = Some s}
     \<and> set (map fst (cc_trend_df argsort rs))
         = {(d, s). \<exists>r\<in>set rs. Report_Date r = Some d \<and> Cost_Center_Code r = Some s}"
  unfolding trend_df_def cc_trend_df_def
  using trend_props [OF assms(1)] trend_props [OF assms(2)] by blast

theorem C9_trend_ascending_witness:
  "argsort_ok np_argsort
     (map (\<lambda>row. fst (fst row))
        (groupby_sum (key2 Report_Date Supplier) Purchase_Order_Value
           (filtered_df all_dates [row_A2, row_B1, row_A1])))
   \<and> argsort_ok np_argsort
     (map (\<lambda>row. fst (fst row))
        (groupby_sum (key2 Report_Date Cost_Center_Code) Purchase_Order_Value
           (filtered_df all_dates [row_A2, row_B1, row_A1])))
   \<and> trend_df np_argsort (filtered_df all_dates [row_A2, row_B1, row_A1])
     = [((1, ''A''), 100), ((1, ''B''), 100), ((2, ''A''), 200)]
   \<and> cc_trend_df np_argsort (filtered_df all_dates [row_A2, row_B1, row_A1])
     = [((1, ''CC1''), 100), ((1, ''CC2''), 100), ((2, ''CC1''), 200)]"
proof -
  have h1: "argsort_ok np_argsort
     (map (\<lambda>row. fst (fst row))
        (groupby_sum (key2 Report_Date Supplier) Purchase_Order_Value
           (filtered_df all_dates [row_A2, row_B1, row_A1])))"
    by code_simp
  have h2: "argsort_ok np_argsort
     (map (\<lambda>row. fst (fst row))
        (groupby_sum (key2 Report_Date Cost_Center_Code) Purchase_Order_Value
           (filtered_df all_dates [row_A2, row_B1, row_A1])))"
    by code_simp
  have e: "trend_df np_argsort (filtered_df all_dates [row_A2, row_B1, row_A1])
     = [((1, ''A''), 100), ((1, ''B''), 100), ((2, ''A''), 200)]"
    "cc_trend_df np_argsort (filtered_df all_dates [row_A2, row_B1, row_A1])
     = [((1, ''CC1''), 100), ((1, ''CC2''), 100), ((2, ''CC1''), 200)]"
    by code_simp+
  show ?thesis
    using C9_trend_ascending [OF h1 h2] h1 h2 e by simp
qed

theorem C9_trend_ties_counterexample:
  "map fst (trend_df np_argsort (filtered_df all_dates tied_rows))
     = map (\<lambda>i. (1, tied_names ! i)) [0, 15, 14, 13, 12, 11, 10, 9, 8, 7, 6, 5, 4, 3, 2, 1, 16, 17]
   \<and> \<not> sorted (map (\<lambda>row. snd (fst row)) (trend_df np_argsort (filtered_df all_dates tied_rows)))
   \<and> map fst (cc_trend_df np_argsort (filtered_df all_dates tied_rows))
     = map (\<lambda>i. (1, tied_names ! i)) [0, 15, 14, 13, 12, 11, 10, 9, 8, 7, 6, 5, 4, 3, 2, 1, 16, 17]"
  by code_simp

subsection \<open>Top groups\<close>

lemma take_sort_key_le:
  assumes "g \<in> set (take n (sort_key f xs))" and "h \<in> set (drop n (sort_key f xs))"
  shows "f g \<le> f h"
proof -
  have "sorted (map f (take n (sort_key f xs) @ drop n (sort_key f xs)))"
    by simp
  then show ?thesis using assms
    by (simp only: map_append sorted_append) auto
qed

lemma take_sort_key_stable:
  assumes "sorted_wrt R xs"
    and "g \<in> set (take n (sort_key f xs))" and "h \<in> set (drop n (sort_key f xs))"
    and "f g = f h"
  shows "R g h"
proof -
  define P where "P = (\<lambda>y. f y = f h)"
  define ys where "ys = sort_key f xs"
  have "filter P ys = filter P (take n ys) @ filter P (drop n ys)"
    by (metis append_take_drop_id filter_append)
  moreover have "filter P ys = filter P xs"
    unfolding P_def ys_def by (rule sort_key_stable)
  moreover have "sorted_wrt R (filter P xs)"
    using assms(1) by (rule sorted_wrt_filter)
  ultimately have "sorted_wrt R (filter P (take n ys) @ filter P (drop n ys))"
    by simp
  then have "\<forall>a\<in>set (filter P (take n ys)). \<forall>b\<in>set (filter P (drop n ys)). R a b"
    by (simp add: sorted_wrt_append)
  moreover have "g \<in> set (filter P (take n ys))"
    using assms(2,4) by (simp add: P_def ys_def)
  moreover have "h \<in> set (filter P (drop n ys))"
    using assms(3) by (simp add: P_def ys_def)
  ultimately show ?thesis by blast
qed

lemma groupby_sum_key_order:
  "sorted_wrt (\<lambda>a b. fst a < fst b) (groupby_sum key col rs)"
proof -
  have "sorted_wrt (<) (map fst (groupby_sum key col rs))"
    by (simp only: map_fst_groupby_sum sorted_group_keys)
  then show ?thesis by (simp add: sorted_wrt_map)
qed

lemma length_groupby_sum:
  "length (groupby_sum key col rs) = card {k. \<exists>r\<in>set rs. key r = Some k}"
proof -
  have "length (groupby_sum key col rs) = length (group_keys key rs)"
    by (simp add: groupby_sum_def)
  also have "\<dots> = card (set (group_keys key rs))"
    by (simp add: distinct_card distinct_group_keys)
  finally show ?thesis by (simp add: set_group_keys)
qed

lemma nlargest_props:
  assumes srt: "sorts_by value_descending srt"
    and ord: "sorted_wrt (\<lambda>a b. fst a < fst b) s"
  shows "length (nlargest srt n s) = min n (length s)"
    and "set (nlargest srt n s) \<subseteq> set s"
    and "\<And>g h. g \<in> set (nlargest srt n s) \<Longrightarrow> h \<in> set s - set (nlargest srt n s) \<Longrightarrow>
           snd h \<le> snd g \<and> (snd h = snd g \<longrightarrow> fst g < fst h)"
proof -
  show "length (nlargest srt n s) = min n (length s)"
    by (simp add: nlargest_def sorts_by_length [OF srt])
  show sub: "set (nlargest srt n s) \<subseteq> set s"
  proof (cases "length s \<le> n")
    case True
    then show ?thesis
      using set_take_subset [of n "srt s"] by (simp add: nlargest_def sorts_by_set [OF srt])
  next
    case False
    then show ?thesis
      using set_take_subset [of n "sort_key (\<lambda>x. - snd x) s"] by (simp add: nlargest_def)
  qed
  fix g h
  assume g: "g \<in> set (nlargest srt n s)" and h: "h \<in> set s - set (nlargest srt n s)"
  show "snd h \<le> snd g \<and> (snd h = snd g \<longrightarrow> fst g < fst h)"
  proof (cases "length s \<le> n")
    case True
    then have "nlargest srt n s = srt s"
      by (simp add: nlargest_def sorts_by_length [OF srt])
    then have "set (nlargest srt n s) = set s"
      by (simp add: sorts_by_set [OF srt])
    with h show ?thesis by simp
  next
    case False
    let ?f = "\<lambda>x::'a \<times> rat. - snd x"
    let ?ys = "sort_key ?f s"
    from False have top: "nlargest srt n s = take n ?ys" by (simp add: nlargest_def)
    have "set s = set (take n ?ys) \<union> set (drop n ?ys)"
      by (metis append_take_drop_id set_append set_sort)
    with h top have h': "h \<in> set (drop n ?ys)" by auto
    from g top have g': "g \<in> set (take n ?ys)" by simp
    have "?f g \<le> ?f h" using g' h' by (rule take_sort_key_le)
    moreover have "snd h = snd g \<Longrightarrow> fst g < fst h"
      using take_sort_key_stable [OF ord g' h'] by simp
    ultimately show ?thesis by simp
  qed
qed

text \<open>
  Claim C5, as amended. For every filtered subset, every \<open>n\<close> and either group column,
  the ranking returns exactly the smaller of \<open>n\<close> and the number of distinct keys that
  occur; every returned group has a sum at least as large as every group left out; and
  where a returned group and a group left out have equal sums, the returned one has the
  smaller key: ties at the cutoff go to the group that stands first in the grouped
  series, which \<^verbatim>\<open>groupby\<close> orders by key. As stated, with ties broken by the order in
  which the groups are first seen in the records, the claim fails.
\<close>

theorem C5_top_n_largest:
  assumes "sorts_by value_descending srt"
  shows "length (top_n srt n key rs) = min n (card {k. \<exists>r\<in>set rs. key r = Some k})
     \<and> set (top_n srt n key rs) \<subseteq> set (groupby_sum key Purchase_Order_Value rs)
     \<and> (\<forall>g\<in>set (top_n srt n key rs).
          \<forall>h\<in>set (groupby_sum key Purchase_Order_Value rs) - set (top_n srt n key rs).
            snd h \<le> snd g \<and> (snd h = snd g \<longrightarrow> fst g < fst h))"
proof -
  define s where "s = groupby_sum key Purchase_Order_Value rs"
  have ord: "sorted_wrt (\<lambda>a b. fst a < fst b) s"
    unfolding s_def by (rule groupby_sum_key_order)
  have t: "top_n srt n key rs = nlargest srt n s"
    by (simp add: top_n_def s_def)
  have 1: "length (nlargest srt n s) = min n (card {k. \<exists>r\<in>set rs. key r = Some k})"
    using nlargest_props(1) [OF assms ord, of n] by (simp add: s_def length_groupby_sum)
  have 2: "set (nlargest srt n s) \<subseteq> set s"
    by (rule nlargest_props(2) [OF assms ord])
  have 3: "\<forall>g\<in>set (nlargest srt n s). \<forall>h\<in>set s - set (nlargest srt n s).
            snd h \<le> snd g \<and> (snd h = snd g \<longrightarrow> fst g < fst h)"
    using nlargest_props(3) [OF assms ord] by blast
  from 1 2 3 show ?thesis unfolding t s_def [symmetric] by blast
qed

theorem C5_top_n_largest_witness:
  "top_n (stable_sort neg_value) 1 Supplier (filtered_df all_dates [row_B1, row_A1, row_A2])
     = [(''A'', 300)]
   \<and> groupby_sum Supplier Purchase_Order_Value (filtered_df all_dates [row_B1, row_A1, row_A2])
     = [(''A'', 300), (''B'', 100)]
   \<and> chart1 (stable_sort neg_value) (filtered_df all_dates [row_B1, row_A1, row_A2])
     = [(''A'', 300), (''B'', 100)]"
  using C5_top_n_largest [OF stable_value_sort_ok, of 1 Supplier
      "filtered_df all_dates [row_B1, row_A1, row_A2]"]
  by (simp add: eval_defs sample_defs)

theorem C5_top_n_first_seen_counterexample:
  "first_seen Supplier (filtered_df all_dates [row_B1, row_A1]) = [''B'', ''A'']
   \<and> groupby_sum Supplier Purchase_Order_Value (filtered_df all_dates [row_B1, row_A1])
       = [(''A'', 100), (''B'', 100)]
   \<and> top_n (stable_sort neg_value) 1 Supplier (filtered_df all_dates [row_B1, row_A1])
       = [(''A'', 100)]"
  by (simp add: eval_defs first_seen_def sample_defs)

end
